theory Spec2Isabelle
  imports Main "HOL-Library.Signed_Division"
begin

section \<open>The Hypothetical Machine (machine.go)\<close>

text \<open>
  A shallow embedding of \<^verbatim>\<open>machine.go\<close>. Go's \<^verbatim>\<open>int\<close> is taken at its 64-bit
  width (amd64, arm64): a value is an \<open>int\<close> in \<open>[-2^63, 2^63)\<close> and the results of
  \<^verbatim>\<open>+\<close>, \<^verbatim>\<open>-\<close>, \<^verbatim>\<open>*\<close> and \<^verbatim>\<open>/\<close> are reduced with \<open>wrap64\<close> wherever they can leave
  that interval. Go's \<^verbatim>\<open>/\<close> and \<^verbatim>\<open>%\<close> truncate towards zero: they are \<open>sdiv\<close> and
  \<open>smod\<close>, not HOL's flooring \<open>div\<close> and \<open>mod\<close>.
\<close>

subsection \<open>Integers\<close>

definition minInt :: int where
  "minInt = - (2 ^ 63)"

definition maxInt :: int where
  "maxInt = 2 ^ 63 - 1"

definition is_int :: "int \<Rightarrow> bool" where
  "is_int x = (minInt \<le> x \<and> x \<le> maxInt)"

definition wrap64 :: "int \<Rightarrow> int" where
  "wrap64 x = (x + 2 ^ 63) mod 2 ^ 64 - 2 ^ 63"

subsection \<open>inBounds, boundsCap, memSize\<close>

definition memSize :: int where
  "memSize = 50"

definition inBounds :: "int \<Rightarrow> bool" where
  "inBounds addr = (addr \<ge> 0 \<and> addr < memSize)"

definition boundsCap :: "int \<Rightarrow> int" where
  "boundsCap i = (if i > 99999 then 99999 else if i < - 99999 then - 99999 else i)"

subsection \<open>CPUState, Instruction, the opcode table\<close>

datatype CPUState = CPUok | CPUbadinst | CPUbadaddr | CPUdivzero | CPUhalt

record Instruction =
  op :: string
  addr :: int

definition ops :: "int \<Rightarrow> string option" where
  "ops = [0 \<mapsto> ''HLT'', 1 \<mapsto> ''JEQ'', 2 \<mapsto> ''JGT'', 3 \<mapsto> ''JLT'', 5 \<mapsto> ''JMP'',
          6 \<mapsto> ''JLE'', 7 \<mapsto> ''JNE'', 10 \<mapsto> ''LAC'', 11 \<mapsto> ''PAC'', 12 \<mapsto> ''LMQ'',
          13 \<mapsto> ''PMQ'', 20 \<mapsto> ''ADD'', 21 \<mapsto> ''SUB'', 22 \<mapsto> ''MUL'', 23 \<mapsto> ''DIV'',
          30 \<mapsto> ''GET'', 31 \<mapsto> ''PUT'']"

subsection \<open>Machine\<close>

text \<open>
  The array \<^verbatim>\<open>mem [memSize]int\<close> is a list, of length 50 in every machine that Go can
  build; it is only ever indexed behind an \<open>inBounds\<close> test. The two hooks
  \<^verbatim>\<open>input\<close> and \<^verbatim>\<open>output\<close> are not fields of the model: \<open>Step\<close> takes the value the
  read hook would return as an argument and returns, beside the machine, the list of
  observable events of the step (the traced instruction, the read, the written value).
\<close>

record Machine =
  mem :: "int list"
  pc :: int
  ac :: int
  mq :: int
  state :: CPUState
  trace :: bool

datatype io_event = Traced Instruction | InputRead int | OutputWritten int

definition NewMachine :: Machine where
  "NewMachine = \<lparr>mem = replicate 50 0, pc = 0, ac = 0, mq = 0, state = CPUok, trace = False\<rparr>"

subsection \<open>getInstruction\<close>

text \<open>Dividing by the constant 1000 cannot overflow, so no \<open>wrap64\<close> is needed here.\<close>

definition getInstruction :: "Machine \<Rightarrow> int \<Rightarrow> Instruction \<times> CPUState" where
  "getInstruction h a0 =
     (if \<not> inBounds a0 then (\<lparr>op = ''UNK'', addr = 0\<rparr>, CPUbadinst)
      else
        let d = mem h ! nat a0;
            opc = d sdiv 1000;
            a = d smod 1000
        in case ops opc of
             None \<Rightarrow> (\<lparr>op = ''UNK'', addr = a\<rparr>, CPUbadinst)
           | Some nm \<Rightarrow>
               if \<not> inBounds a then (\<lparr>op = nm, addr = a\<rparr>, CPUbadaddr)
               else (\<lparr>op = nm, addr = a\<rparr>, CPUok))"

subsection \<open>Step\<close>

text \<open>
  \<open>exec\<close> is the \<^verbatim>\<open>switch i.op\<close> of \<open>Step\<close>, with its \<^verbatim>\<open>default\<close> branch last;
  \<open>Step\<close> decodes, reports the trace, advances \<open>pc\<close> and dispatches.
  \<^verbatim>\<open>h.pc += 1\<close> runs only after \<open>inBounds (pc h)\<close> held, so it cannot overflow.
  The sum, difference and product of two 64-bit values can, and so can the
  quotient (only for \<open>minInt / -1\<close>); the remainder cannot.
\<close>

definition exec :: "int \<Rightarrow> Instruction \<Rightarrow> Machine \<Rightarrow> Machine \<times> io_event list" where
  "exec inp i h =
     (let a = nat (addr i) in
      if op i = ''HLT'' then (h\<lparr>state := CPUhalt\<rparr>, [])
      else if op i = ''JEQ'' then (if ac h = 0 then h\<lparr>pc := addr i\<rparr> else h, [])
      else if op i = ''JGT'' then (if ac h > 0 then h\<lparr>pc := addr i\<rparr> else h, [])
      else if op i = ''JLT'' then (if ac h < 0 then h\<lparr>pc := addr i\<rparr> else h, [])
      else if op i = ''JMP'' then (h\<lparr>pc := addr i\<rparr>, [])
      else if op i = ''JLE'' then (if ac h \<le> 0 then h\<lparr>pc := addr i\<rparr> else h, [])
      else if op i = ''JNE'' then (if ac h \<noteq> 0 then h\<lparr>pc := addr i\<rparr> else h, [])
      else if op i = ''LAC'' then (h\<lparr>ac := mem h ! a\<rparr>, [])
      else if op i = ''PAC'' then (h\<lparr>mem := (mem h)[a := ac h]\<rparr>, [])
      else if op i = ''LMQ'' then (h\<lparr>mq := mem h ! a\<rparr>, [])
      else if op i = ''PMQ'' then (h\<lparr>mem := (mem h)[a := mq h]\<rparr>, [])
      else if op i = ''ADD'' then (h\<lparr>ac := boundsCap (wrap64 (ac h + mem h ! a))\<rparr>, [])
      else if op i = ''SUB'' then (h\<lparr>ac := boundsCap (wrap64 (ac h - mem h ! a))\<rparr>, [])
      else if op i = ''MUL'' then (h\<lparr>mq := boundsCap (wrap64 (mq h * mem h ! a))\<rparr>, [])
      else if op i = ''DIV'' then
        (if mem h ! a = 0 then (h\<lparr>state := CPUdivzero\<rparr>, [])
         else (h\<lparr>ac := mq h smod mem h ! a, mq := wrap64 (mq h sdiv mem h ! a)\<rparr>, []))
      else if op i = ''GET'' then (h\<lparr>mem := (mem h)[a := boundsCap inp]\<rparr>, [InputRead inp])
      else if op i = ''PUT'' then (h, [OutputWritten (mem h ! a)])
      else (h\<lparr>state := CPUbadinst\<rparr>, []))"

definition Step :: "int \<Rightarrow> Machine \<Rightarrow> Machine \<times> io_event list" where
  "Step inp h =
     (case getInstruction h (pc h) of
        (i, cs) \<Rightarrow>
          if cs \<noteq> CPUok then (h\<lparr>state := cs\<rparr>, [])
          else
            let tr = (if trace h then [Traced i] else []);
                r = exec inp i (h\<lparr>pc := pc h + 1\<rparr>)
            in (fst r, tr @ snd r))"

definition Halted :: "Machine \<Rightarrow> bool" where
  "Halted h = (state h \<noteq> CPUok)"

definition ResetCPU :: "Machine \<Rightarrow> Machine" where
  "ResetCPU h = h\<lparr>ac := 0, mq := 0, pc := 0, state := CPUok\<rparr>"

definition ToggleTrace :: "Machine \<Rightarrow> Machine" where
  "ToggleTrace h = h\<lparr>trace := \<not> trace h\<rparr>"

subsection \<open>LoadProgram\<close>

text \<open>
  The loader uses three things of Go's standard library, modelled here from their
  documentation.

  \<^item> \<^verbatim>\<open>bufio.Scanner\<close>: the reader is abstracted to what the scanner yields, the list of
    lines returned by \<^verbatim>\<open>s.Text()\<close> while \<^verbatim>\<open>s.Scan()\<close> is true, and whether \<^verbatim>\<open>s.Err()\<close> is
    non-nil afterwards.
  \<^item> \<^verbatim>\<open>regexp\<close>: the one expression of the source is
    \<^verbatim>\<open>^(\d+):\s*(-*\d+)(\s.*)*$\<close>, where \<^verbatim>\<open>\d\<close> is an ASCII digit, \<^verbatim>\<open>\s\<close> is one of tab,
    newline, form feed, carriage return and space, and \<^verbatim>\<open>.\<close> is any character but a
    newline. \<open>FindStringSubmatch\<close> returns the first two groups of the match.
    No class overlaps the character that must follow it, so the greedy scan below is the
    only way to match; \<open>line_shape\<close> states the expression as a decomposition of the line
    and \<open>FindStringSubmatch_iff\<close> relates the two.
  \<^item> \<^verbatim>\<open>strconv.Atoi\<close>: an optional sign \<^verbatim>\<open>+\<close> or \<^verbatim>\<open>-\<close>, then one or more decimal digits;
    an error (here \<open>None\<close>) on any other syntax and when the value is not a 64-bit
    \<^verbatim>\<open>int\<close>.
\<close>

datatype load_error = loadErrBadFile | loadErrBadLine | loadErrBadAddr | loadErrBadValue

definition is_digit :: "char \<Rightarrow> bool" where
  "is_digit c = (c \<in> set ''0123456789'')"

definition is_space :: "char \<Rightarrow> bool" where
  "is_space c = (c \<in> {CHR 0x09, CHR 0x0A, CHR 0x0C, CHR 0x0D, CHR '' ''})"

definition is_dash :: "char \<Rightarrow> bool" where
  "is_dash c = (c = CHR ''-'')"

definition FindStringSubmatch :: "string \<Rightarrow> (string \<times> string) option" where
  "FindStringSubmatch line =
     (let m1 = takeWhile is_digit line;
          r1 = dropWhile is_digit line
      in if m1 = [] then None
         else case r1 of
           [] \<Rightarrow> None
         | c # r2 \<Rightarrow>
             if c \<noteq> CHR '':'' then None
             else
               let r3 = dropWhile is_space r2;
                   dashes = takeWhile is_dash r3;
                   r4 = dropWhile is_dash r3;
                   ds = takeWhile is_digit r4;
                   r5 = dropWhile is_digit r4
               in if ds = [] then None
                  else if r5 = [] \<or> is_space (hd r5) then Some (m1, dashes @ ds)
                  else None)"

definition digits_val :: "string \<Rightarrow> int" where
  "digits_val s = foldl (\<lambda>n ch. n * 10 + (of_char ch - 48)) 0 s"

definition Atoi :: "string \<Rightarrow> int option" where
  "Atoi s =
     (let neg = (s \<noteq> [] \<and> hd s = CHR ''-'');
          body = (if s \<noteq> [] \<and> (hd s = CHR ''-'' \<or> hd s = CHR ''+'') then tl s else s)
      in if body = [] \<or> \<not> list_all is_digit body then None
         else
           let v = (if neg then - digits_val body else digits_val body)
           in if is_int v then Some v else None)"

text \<open>
  The body of the scanning loop up to the store: the address and the value of a line,
  or the error the loop returns for it.
\<close>

definition parseLine :: "string \<Rightarrow> load_error + (int \<times> int)" where
  "parseLine line =
     (case FindStringSubmatch line of
        None \<Rightarrow> Inl loadErrBadLine
      | Some (m1, m2) \<Rightarrow>
          (case Atoi m1 of
             None \<Rightarrow> Inl loadErrBadAddr
           | Some a \<Rightarrow>
               if a < 0 \<or> a \<ge> memSize then Inl loadErrBadAddr
               else (case Atoi m2 of
                       None \<Rightarrow> Inl loadErrBadValue
                     | Some v \<Rightarrow> Inr (a, v))))"

text \<open>The loop \<^verbatim>\<open>for s.Scan()\<close>: the first failing line returns from \<open>LoadProgram\<close>.\<close>

fun loadLines :: "string list \<Rightarrow> Machine \<Rightarrow> load_error option \<times> Machine" where
  "loadLines [] h = (None, h)"
| "loadLines (line # rest) h =
     (case parseLine line of
        Inl e \<Rightarrow> (Some e, h)
      | Inr (a, v) \<Rightarrow> loadLines rest (h\<lparr>mem := (mem h)[nat a := boundsCap v]\<rparr>))"

definition LoadProgram :: "string list \<Rightarrow> bool \<Rightarrow> Machine \<Rightarrow> load_error option \<times> Machine" where
  "LoadProgram lines scan_err h =
     (let h0 = h\<lparr>state := CPUhalt, mem := replicate 50 0\<rparr> in
      case loadLines lines h0 of
        (Some e, h1) \<Rightarrow> (Some e, h1)
      | (None, h1) \<Rightarrow>
          if scan_err then (Some loadErrBadFile, h1)
          else (None, h1\<lparr>state := CPUok\<rparr>))"


subsection \<open>Notions used to state the properties\<close>

text \<open>A sequence of \<open>Step\<close> calls, one value of the read hook for each.\<close>

definition Steps :: "int list \<Rightarrow> Machine \<Rightarrow> Machine" where
  "Steps inps h = foldl (\<lambda>m inp. fst (Step inp m)) h inps"

text \<open>The calls a client can make on a machine, and a sequence of them.\<close>

datatype call = CallLoadProgram "string list" bool | CallStep int | CallResetCPU | CallToggleTrace

fun apply_call :: "call \<Rightarrow> Machine \<Rightarrow> Machine" where
  "apply_call (CallLoadProgram lines scan_err) h = snd (LoadProgram lines scan_err h)"
| "apply_call (CallStep inp) h = fst (Step inp h)"
| "apply_call CallResetCPU h = ResetCPU h"
| "apply_call CallToggleTrace h = ToggleTrace h"

definition run_calls :: "call list \<Rightarrow> Machine \<Rightarrow> Machine" where
  "run_calls cs h = foldl (\<lambda>m c. apply_call c m) h cs"

definition in_range :: "int \<Rightarrow> bool" where
  "in_range x = (- 99999 \<le> x \<and> x \<le> 99999)"

definition values_in_range :: "Machine \<Rightarrow> bool" where
  "values_in_range h =
     (length (mem h) = 50 \<and> list_all in_range (mem h) \<and> in_range (ac h) \<and> in_range (mq h))"

text \<open>
  A line that the loop body accepts, the assignment it makes, and the memory after the
  assignments of a list of accepted lines, applied in order to the zeroed memory. The
  stored value is the parsed one clamped to [-99999, 99999], written here as a maximum
  and a minimum and not through \<open>boundsCap\<close>: values above 99999 become 99999, values
  below -99999 become -99999.
\<close>

definition lineOk :: "string \<Rightarrow> bool" where
  "lineOk line = (case parseLine line of Inl e \<Rightarrow> False | Inr av \<Rightarrow> True)"

definition assignment :: "string \<Rightarrow> int \<times> int" where
  "assignment line = (case parseLine line of Inl e \<Rightarrow> (0, 0) | Inr av \<Rightarrow> av)"

definition store :: "int list \<Rightarrow> int \<times> int \<Rightarrow> int list" where
  "store m av = m[nat (fst av) := max (- 99999) (min 99999 (snd av))]"

definition stored :: "string list \<Rightarrow> int list" where
  "stored ls = foldl store (replicate 50 0) (map assignment ls)"

text \<open>
  A value token that \<open>Atoi\<close> accepts: at most one leading \<^verbatim>\<open>-\<close>, and a value that is a
  64-bit \<^verbatim>\<open>int\<close>.
\<close>

definition plain_value :: "string \<Rightarrow> bool" where
  "plain_value tok =
     (let n = length (takeWhile is_dash tok);
          ds = dropWhile is_dash tok
      in n \<le> 1 \<and> is_int (if n = 1 then - digits_val ds else digits_val ds))"

text \<open>
  The regular expression read as a decomposition of the line: \<open>comment_shape\<close> is
  \<^verbatim>\<open>(\s.*)*\<close>, a sequence of groups that each start with a space character and go on
  without a newline; \<open>line_shape\<close> is the whole expression with its two groups.
\<close>

definition comment_shape :: "string \<Rightarrow> bool" where
  "comment_shape rest =
     (\<exists>gs. rest = concat gs \<and>
        (\<forall>g \<in> set gs. g \<noteq> [] \<and> is_space (hd g) \<and> CHR 0x0A \<notin> set (tl g)))"

definition line_shape :: "string \<Rightarrow> string \<Rightarrow> string \<Rightarrow> bool" where
  "line_shape line m1 m2 =
     (\<exists>ws dashes ds rest.
        line = m1 @ CHR '':'' # ws @ m2 @ rest \<and>
        m1 \<noteq> [] \<and> list_all is_digit m1 \<and> list_all is_space ws \<and>
        m2 = dashes @ ds \<and> list_all is_dash dashes \<and> ds \<noteq> [] \<and> list_all is_digit ds \<and>
        comment_shape rest)"


section \<open>Auxiliary facts\<close>

lemma wrap64_id: "is_int x \<Longrightarrow> wrap64 x = x"
  by (simp add: is_int_def minInt_def maxInt_def wrap64_def)

lemma getInstruction_ok:
  assumes "getInstruction h a = (i, CPUok)"
  shows "inBounds a" and "inBounds (addr i)" and "ops (mem h ! nat a sdiv 1000) = Some (op i)"
    and "addr i = mem h ! nat a smod 1000"
  using assms
  by (auto simp: getInstruction_def Let_def split: if_splits option.splits)

lemma getInstruction_not_ok:
  "snd (getInstruction h a) \<in> {CPUok, CPUbadinst, CPUbadaddr}"
  by (auto simp: getInstruction_def Let_def split: if_splits option.splits)

lemma Step_ok:
  "getInstruction h (pc h) = (i, CPUok) \<Longrightarrow>
   Step inp h = (fst (exec inp i (h\<lparr>pc := pc h + 1\<rparr>)),
                 (if trace h then [Traced i] else []) @ snd (exec inp i (h\<lparr>pc := pc h + 1\<rparr>)))"
  by (simp add: Step_def Let_def)

lemma Step_not_ok:
  "snd (getInstruction h (pc h)) \<noteq> CPUok \<Longrightarrow>
   Step inp h = (h\<lparr>state := snd (getInstruction h (pc h))\<rparr>, [])"
  by (cases "getInstruction h (pc h)") (simp add: Step_def)

lemma exec_DIV:
  "op i = ''DIV'' \<Longrightarrow> exec inp i h =
     (if mem h ! nat (addr i) = 0 then (h\<lparr>state := CPUdivzero\<rparr>, [])
      else (h\<lparr>ac := mq h smod mem h ! nat (addr i),
               mq := wrap64 (mq h sdiv mem h ! nat (addr i))\<rparr>, []))"
  by (simp add: exec_def Let_def)

lemma sdiv_is_int:
  assumes "is_int x" and "\<not> (x = minInt \<and> d = - 1)"
  shows "is_int (x sdiv d)"
proof (cases "x = minInt")
  case True
  then have d: "d \<noteq> - 1" using assms by simp
  have "x \<noteq> 0" using True by (simp add: minInt_def)
  then have ne: "x sdiv d \<noteq> - x" using d by simp
  have "x sdiv d \<in> {- \<bar>x\<bar>..\<bar>x\<bar>}" by (rule sdiv_int_range)
  with ne True show ?thesis by (simp add: is_int_def minInt_def maxInt_def)
next
  case False
  have "x sdiv d \<in> {- \<bar>x\<bar>..\<bar>x\<bar>}" by (rule sdiv_int_range)
  with False assms(1) show ?thesis by (auto simp: is_int_def minInt_def maxInt_def)
qed

lemma smod_sign: "(a::int) smod b \<noteq> 0 \<Longrightarrow> sgn (a smod b) = sgn a"
proof -
  assume nz: "a smod b \<noteq> 0"
  have "0 \<le> \<bar>a\<bar> mod \<bar>b\<bar>"
    by (cases "b = 0") simp_all
  moreover from nz have "\<bar>a\<bar> mod \<bar>b\<bar> \<noteq> 0"
    by (simp add: signed_modulo_int_def)
  ultimately have "sgn (\<bar>a\<bar> mod \<bar>b\<bar>) = 1" by simp
  then show ?thesis by (simp add: signed_modulo_int_def sgn_mult)
qed

lemma smod_abs_less: "(b::int) \<noteq> 0 \<Longrightarrow> \<bar>a smod b\<bar> < \<bar>b\<bar>"
  by (cases "a = 0") (simp_all add: signed_modulo_int_def abs_mult abs_sgn_eq)

lemma exec_state: "state (fst (exec inp i h)) = CPUok \<Longrightarrow> state h = CPUok"
  by (simp add: exec_def Let_def split: if_splits)

lemma Step_state: "state (fst (Step inp h)) = CPUok \<Longrightarrow> state h = CPUok"
proof (cases "getInstruction h (pc h)")
  case (Pair i cs)
  assume a: "state (fst (Step inp h)) = CPUok"
  show ?thesis
  proof (cases "cs = CPUok")
    case True
    with Pair a have "state (fst (exec inp i (h\<lparr>pc := pc h + 1\<rparr>))) = CPUok"
      by (simp add: Step_ok)
    then show ?thesis using exec_state by fastforce
  next
    case False
    with Pair a show ?thesis by (simp add: Step_not_ok)
  qed
qed

lemma Steps_state: "state h \<noteq> CPUok \<Longrightarrow> state (Steps inps h) \<noteq> CPUok"
  unfolding Steps_def
  by (induction inps arbitrary: h) (auto dest: Step_state)

lemma in_range_boundsCap: "in_range (boundsCap x)"
  by (simp add: in_range_def boundsCap_def)

lemma boundsCap_id: "in_range x \<Longrightarrow> boundsCap x = x"
  by (simp add: in_range_def boundsCap_def)

lemma in_range_nth: "list_all in_range xs \<Longrightarrow> n < length xs \<Longrightarrow> in_range (xs ! n)"
  by (simp add: list_all_length)

lemma in_range_update: "list_all in_range xs \<Longrightarrow> in_range v \<Longrightarrow> list_all in_range (xs[n := v])"
  by (auto simp: list_all_iff dest: set_update_subset_insert [THEN subsetD])

lemma in_range_sdiv: "in_range x \<Longrightarrow> in_range (x sdiv d)"
  using sdiv_int_range [of x d] by (auto simp: in_range_def)

lemma in_range_smod: "in_range d \<Longrightarrow> d \<noteq> 0 \<Longrightarrow> in_range (x smod d)"
  using smod_abs_less [of d x] by (auto simp: in_range_def)

lemma in_range_is_int: "in_range x \<Longrightarrow> is_int x"
  by (simp add: in_range_def is_int_def minInt_def maxInt_def)

lemma exec_values_in_range:
  assumes "values_in_range h" and "inBounds (addr i)"
  shows "values_in_range (fst (exec inp i h))"
proof -
  from assms have a: "nat (addr i) < length (mem h)"
    by (auto simp: values_in_range_def inBounds_def memSize_def)
  let ?v = "mem h ! nat (addr i)"
  from assms a have v: "in_range ?v"
    by (simp add: values_in_range_def in_range_nth)
  have q: "in_range (wrap64 (mq h sdiv ?v))"
    using assms(1) by (simp add: values_in_range_def in_range_sdiv in_range_is_int wrap64_id)
  have r: "?v \<noteq> 0 \<Longrightarrow> in_range (mq h smod ?v)"
    using v by (simp add: in_range_smod)
  have z: "in_range 0" by (simp add: in_range_def)
  show ?thesis
    using assms(1) v q r z
    by (simp add: exec_def Let_def values_in_range_def in_range_boundsCap in_range_update)
qed

lemma Step_values_in_range:
  assumes "values_in_range h"
  shows "values_in_range (fst (Step inp h))"
proof (cases "getInstruction h (pc h)")
  case (Pair i cs)
  show ?thesis
  proof (cases "cs = CPUok")
    case True
    have "values_in_range (h\<lparr>pc := pc h + 1\<rparr>)"
      using assms by (simp add: values_in_range_def)
    moreover have "inBounds (addr i)"
      using Pair True getInstruction_ok(2) by simp
    ultimately show ?thesis
      using Pair True by (simp add: Step_ok exec_values_in_range)
  next
    case False
    with Pair assms show ?thesis by (simp add: Step_not_ok values_in_range_def)
  qed
qed

lemma loadLines_values_in_range:
  "values_in_range h \<Longrightarrow> values_in_range (snd (loadLines ls h))"
proof (induction ls arbitrary: h)
  case Nil
  then show ?case by simp
next
  case (Cons l ls)
  show ?case
  proof (cases "parseLine l")
    case (Inl e)
    with Cons.prems show ?thesis by simp
  next
    case (Inr av)
    obtain a v where av: "av = (a, v)" by (cases av)
    have "values_in_range (h\<lparr>mem := (mem h)[nat a := boundsCap v]\<rparr>)"
      using Cons.prems by (simp add: values_in_range_def in_range_update in_range_boundsCap)
    then show ?thesis using Inr av Cons.IH by simp
  qed
qed

lemma zero_in_range: "list_all in_range (replicate n 0)"
  by (simp add: list_all_iff in_range_def)

lemma LoadProgram_values_in_range:
  assumes "in_range (ac h)" and "in_range (mq h)"
  shows "values_in_range (snd (LoadProgram ls e h))"
proof -
  let ?init = "h\<lparr>state := CPUhalt, mem := replicate 50 0\<rparr>"
  have "values_in_range ?init"
    using assms by (simp add: values_in_range_def zero_in_range)
  then have "values_in_range (snd (loadLines ls ?init))"
    by (rule loadLines_values_in_range)
  then show ?thesis
    by (cases "loadLines ls ?init") (auto simp: LoadProgram_def Let_def values_in_range_def split: option.splits)
qed

lemma apply_call_values_in_range:
  "values_in_range h \<Longrightarrow> values_in_range (apply_call c h)"
proof (cases c)
  case (CallLoadProgram ls e)
  assume "values_in_range h"
  then have "in_range (ac h)" and "in_range (mq h)"
    by (simp_all add: values_in_range_def)
  then show ?thesis
    using CallLoadProgram by (simp add: LoadProgram_values_in_range)
next
  case (CallStep inp)
  assume "values_in_range h"
  then show ?thesis using CallStep by (simp add: Step_values_in_range)
next
  case CallResetCPU
  assume "values_in_range h"
  then show ?thesis using CallResetCPU by (simp add: ResetCPU_def values_in_range_def in_range_def)
next
  case CallToggleTrace
  assume "values_in_range h"
  then show ?thesis using CallToggleTrace by (simp add: ToggleTrace_def values_in_range_def)
qed

lemma run_calls_values_in_range:
  "values_in_range h \<Longrightarrow> values_in_range (run_calls cs h)"
  unfolding run_calls_def
  by (induction cs arbitrary: h) (simp_all add: apply_call_values_in_range)

lemma NewMachine_values_in_range: "values_in_range NewMachine"
  by (simp add: values_in_range_def NewMachine_def zero_in_range in_range_def)

lemma boundsCap_clamp: "boundsCap v = max (- 99999) (min 99999 v)"
  by (simp add: boundsCap_def)

lemma loadLines_prefix:
  "list_all lineOk pre \<Longrightarrow>
   loadLines (pre @ rest) h =
   loadLines rest (h\<lparr>mem := foldl store (mem h) (map assignment pre)\<rparr>)"
proof (induction pre arbitrary: h)
  case Nil
  then show ?case by simp
next
  case (Cons l pre)
  from Cons.prems obtain a v where p: "parseLine l = Inr (a, v)"
    by (auto simp: lineOk_def split: sum.splits)
  from Cons.prems have "list_all lineOk pre" by simp
  from Cons.IH [OF this] p show ?case
    by (simp add: assignment_def store_def boundsCap_clamp)
qed

lemma loadLines_all_ok:
  "list_all lineOk ls \<Longrightarrow>
   loadLines ls h = (None, h\<lparr>mem := foldl store (mem h) (map assignment ls)\<rparr>)"
  using loadLines_prefix [of ls "[]" h] by simp

lemma loadLines_first_failure:
  assumes "list_all lineOk pre" and "parseLine l = Inl e"
  shows "loadLines (pre @ l # post) h =
         (Some e, h\<lparr>mem := foldl store (mem h) (map assignment pre)\<rparr>)"
  using loadLines_prefix [OF assms(1), of "l # post" h] assms(2) by simp

lemma loadLines_state: "state (snd (loadLines ls h)) = state h"
proof (induction ls arbitrary: h)
  case Nil
  show ?case by simp
next
  case (Cons l ls)
  show ?case
  proof (cases "parseLine l")
    case (Inl e)
    then show ?thesis by simp
  next
    case (Inr av)
    then show ?thesis using Cons.IH by (cases av) simp
  qed
qed

lemma parseLine_errors:
  "parseLine l = Inl e \<Longrightarrow> e \<in> {loadErrBadLine, loadErrBadAddr, loadErrBadValue}"
  by (auto simp: parseLine_def split: option.splits if_splits prod.splits)

lemma digit_not_sign: "is_digit c \<Longrightarrow> c \<noteq> CHR ''-'' \<and> c \<noteq> CHR ''+'' \<and> \<not> is_dash c \<and> \<not> is_space c"
  by (auto simp: is_digit_def is_dash_def is_space_def)

lemma list_all_takeWhile: "list_all P (takeWhile P xs)"
  by (auto simp: list_all_iff dest: set_takeWhileD)

lemma FindStringSubmatch_Some:
  assumes "FindStringSubmatch l = Some (m1, m2)"
  obtains r2 where "m1 = takeWhile is_digit l" and "m1 \<noteq> []"
    and "dropWhile is_digit l = CHR '':'' # r2"
    and "m2 = takeWhile is_dash (dropWhile is_space r2) @
              takeWhile is_digit (dropWhile is_dash (dropWhile is_space r2))"
    and "takeWhile is_digit (dropWhile is_dash (dropWhile is_space r2)) \<noteq> []"
    and "dropWhile is_digit (dropWhile is_dash (dropWhile is_space r2)) = [] \<or>
         is_space (hd (dropWhile is_digit (dropWhile is_dash (dropWhile is_space r2))))"
  using assms
  by (auto simp: FindStringSubmatch_def Let_def split: list.splits if_splits)

lemma FindStringSubmatch_groups:
  assumes "FindStringSubmatch l = Some (m1, m2)"
  shows "m1 \<noteq> [] \<and> list_all is_digit m1 \<and>
         (\<exists>dashes ds. m2 = dashes @ ds \<and> list_all is_dash dashes \<and> ds \<noteq> [] \<and> list_all is_digit ds)"
proof -
  from assms obtain r2 where m1: "m1 = takeWhile is_digit l" "m1 \<noteq> []"
    and m2: "m2 = takeWhile is_dash (dropWhile is_space r2) @
              takeWhile is_digit (dropWhile is_dash (dropWhile is_space r2))"
    and ne: "takeWhile is_digit (dropWhile is_dash (dropWhile is_space r2)) \<noteq> []"
    by (rule FindStringSubmatch_Some)
  from m2 ne have "\<exists>dashes ds. m2 = dashes @ ds \<and> list_all is_dash dashes \<and> ds \<noteq> [] \<and>
      list_all is_digit ds"
    by (intro exI conjI) (assumption | rule list_all_takeWhile)+
  with m1 show ?thesis by (simp add: list_all_takeWhile)
qed

lemma Atoi_digits:
  assumes "ds \<noteq> []" and "list_all is_digit ds"
  shows "Atoi ds = (if is_int (digits_val ds) then Some (digits_val ds) else None)"
proof -
  from assms obtain c cs where ds: "ds = c # cs" by (cases ds) auto
  with assms have "is_digit c" by simp
  then have "c \<noteq> CHR ''-''" "c \<noteq> CHR ''+''" using digit_not_sign by auto
  then show ?thesis using assms ds by (simp add: Atoi_def Let_def)
qed

lemma Atoi_dash_digits:
  assumes "ds \<noteq> []" and "list_all is_digit ds"
  shows "Atoi (CHR ''-'' # ds) = (if is_int (- digits_val ds) then Some (- digits_val ds) else None)"
  using assms by (simp add: Atoi_def Let_def)

lemma Atoi_two_dashes: "Atoi (CHR ''-'' # CHR ''-'' # s) = None"
  by (simp add: Atoi_def Let_def is_digit_def)

lemma Atoi_value_token:
  assumes "list_all is_dash dashes" and "ds \<noteq> []" and "list_all is_digit ds"
  shows "Atoi (dashes @ ds) \<noteq> None \<longleftrightarrow> plain_value (dashes @ ds)"
proof -
  from assms obtain c cs where ds: "ds = c # cs" by (cases ds) auto
  with assms have "\<not> is_dash c" using digit_not_sign by simp
  with assms(1) ds have tw: "takeWhile is_dash (dashes @ ds) = dashes"
    and dw: "dropWhile is_dash (dashes @ ds) = ds"
    by (simp_all add: list_all_iff takeWhile_append2 dropWhile_append2)
  consider "dashes = []" | "dashes = [CHR ''-'']" | s where "dashes = CHR ''-'' # CHR ''-'' # s"
  proof (cases dashes)
    case Nil
    then show ?thesis using that by simp
  next
    case (Cons x xs)
    with assms(1) have x: "x = CHR ''-''" by (simp add: is_dash_def)
    show ?thesis
    proof (cases xs)
      case Nil
      with Cons x show ?thesis using that by simp
    next
      case (Cons y ys)
      with \<open>dashes = x # xs\<close> assms(1) have "y = CHR ''-''" by (simp add: is_dash_def)
      with Cons \<open>dashes = x # xs\<close> x show ?thesis using that by simp
    qed
  qed
  then show ?thesis
  proof cases
    case 1
    then show ?thesis
      using assms tw dw by (simp add: plain_value_def Let_def Atoi_digits)
  next
    case 2
    then show ?thesis
      using assms tw dw by (simp add: plain_value_def Let_def Atoi_dash_digits)
  next
    case 3
    then show ?thesis
      using tw by (simp add: plain_value_def Let_def Atoi_two_dashes)
  qed
qed

lemma parseLine_BadValue:
  "parseLine l = Inl loadErrBadValue \<longleftrightarrow>
   (\<exists>m1 m2 a. FindStringSubmatch l = Some (m1, m2) \<and> Atoi m1 = Some a \<and> 0 \<le> a \<and> a < 50 \<and>
      \<not> plain_value m2)"
proof (cases "FindStringSubmatch l")
  case None
  then show ?thesis by (simp add: parseLine_def)
next
  case (Some m)
  obtain m1 m2 where m: "m = (m1, m2)" by (cases m)
  from Some m FindStringSubmatch_groups [of l m1 m2]
  have "Atoi m2 \<noteq> None \<longleftrightarrow> plain_value m2"
    using Atoi_value_token by auto
  then show ?thesis
    using Some m by (auto simp: parseLine_def memSize_def split: option.splits)
qed

lemma loadLines_error_line:
  "fst (loadLines ls h) = Some e \<longleftrightarrow>
   (\<exists>pre l post. ls = pre @ l # post \<and> list_all lineOk pre \<and> parseLine l = Inl e)"
proof
  assume "fst (loadLines ls h) = Some e"
  then show "\<exists>pre l post. ls = pre @ l # post \<and> list_all lineOk pre \<and> parseLine l = Inl e"
  proof (induction ls arbitrary: h)
    case Nil
    then show ?case by simp
  next
    case (Cons x xs)
    show ?case
    proof (cases "parseLine x")
      case (Inl e')
      with Cons.prems have "e' = e" by simp
      with Inl have "x # xs = [] @ x # xs \<and> list_all lineOk [] \<and> parseLine x = Inl e" by simp
      then show ?thesis by blast
    next
      case (Inr av)
      obtain a v where av: "av = (a, v)" by (cases av)
      with Inr Cons.prems
      have "fst (loadLines xs (h\<lparr>mem := (mem h)[nat a := boundsCap v]\<rparr>)) = Some e" by simp
      from Cons.IH [OF this] obtain pre l post
        where "xs = pre @ l # post" "list_all lineOk pre" "parseLine l = Inl e" by blast
      with Inr have "x # xs = (x # pre) @ l # post \<and> list_all lineOk (x # pre) \<and> parseLine l = Inl e"
        by (simp add: lineOk_def)
      then show ?thesis by blast
    qed
  qed
next
  assume "\<exists>pre l post. ls = pre @ l # post \<and> list_all lineOk pre \<and> parseLine l = Inl e"
  then show "fst (loadLines ls h) = Some e"
    by (auto simp: loadLines_first_failure)
qed

lemma LoadProgram_BadValue_loadLines:
  "fst (LoadProgram lines scan_err h) = Some loadErrBadValue \<longleftrightarrow>
   fst (loadLines lines (h\<lparr>state := CPUhalt, mem := replicate 50 0\<rparr>)) = Some loadErrBadValue"
  by (cases "loadLines lines (h\<lparr>state := CPUhalt, mem := replicate 50 0\<rparr>)")
     (auto simp: LoadProgram_def Let_def split: option.splits)

lemma comment_groups:
  "is_space c \<Longrightarrow>
   \<exists>t gs. xs = t @ concat gs \<and> CHR 0x0A \<notin> set t \<and>
     (\<forall>g \<in> set gs. g \<noteq> [] \<and> is_space (hd g) \<and> CHR 0x0A \<notin> set (tl g))"
proof (induction xs arbitrary: c)
  case Nil
  show ?case
  proof (intro exI conjI)
    show "([] :: string) = [] @ concat []" by simp
    show "CHR 0x0A \<notin> set ([] :: string)" by simp
    show "\<forall>g \<in> set ([] :: string list). g \<noteq> [] \<and> is_space (hd g) \<and> CHR 0x0A \<notin> set (tl g)"
      by simp
  qed
next
  case (Cons x xs)
  show ?case
  proof (cases "x = CHR 0x0A")
    case True
    then have sp: "is_space x" by (simp add: is_space_def)
    from Cons.IH [OF this] obtain t gs where
      g: "xs = t @ concat gs" "CHR 0x0A \<notin> set t"
         "\<forall>g \<in> set gs. g \<noteq> [] \<and> is_space (hd g) \<and> CHR 0x0A \<notin> set (tl g)"
      by blast
    show ?thesis
    proof (intro exI conjI)
      show "x # xs = [] @ concat ((x # t) # gs)" unfolding g(1) by simp
      show "CHR 0x0A \<notin> set ([] :: string)" by simp
      show "\<forall>g \<in> set ((x # t) # gs). g \<noteq> [] \<and> is_space (hd g) \<and> CHR 0x0A \<notin> set (tl g)"
        using g(2,3) sp by simp
    qed
  next
    case False
    from Cons.IH [OF Cons.prems] obtain t gs where
      g: "xs = t @ concat gs" "CHR 0x0A \<notin> set t"
         "\<forall>g \<in> set gs. g \<noteq> [] \<and> is_space (hd g) \<and> CHR 0x0A \<notin> set (tl g)"
      by blast
    show ?thesis
    proof (intro exI conjI)
      show "x # xs = (x # t) @ concat gs" unfolding g(1) by simp
      show "CHR 0x0A \<notin> set (x # t)" using g(2) False by simp
      show "\<forall>g \<in> set gs. g \<noteq> [] \<and> is_space (hd g) \<and> CHR 0x0A \<notin> set (tl g)"
        by (rule g(3))
    qed
  qed
qed

lemma comment_shape_iff: "comment_shape rest \<longleftrightarrow> rest = [] \<or> is_space (hd rest)"
proof
  assume "comment_shape rest"
  then obtain gs where gs: "rest = concat gs"
    "\<forall>g \<in> set gs. g \<noteq> [] \<and> is_space (hd g) \<and> CHR 0x0A \<notin> set (tl g)"
    by (auto simp: comment_shape_def)
  show "rest = [] \<or> is_space (hd rest)"
  proof (cases gs)
    case Nil
    with gs show ?thesis by simp
  next
    case (Cons g gs')
    with gs have "g \<noteq> []" "is_space (hd g)" by simp_all
    with Cons gs(1) show ?thesis by simp
  qed
next
  assume a: "rest = [] \<or> is_space (hd rest)"
  show "comment_shape rest"
  proof (cases rest)
    case Nil
    have "[] = concat ([] :: string list) \<and>
       (\<forall>g \<in> set ([] :: string list). g \<noteq> [] \<and> is_space (hd g) \<and> CHR 0x0A \<notin> set (tl g))"
      by simp
    with Nil show ?thesis unfolding comment_shape_def by blast
  next
    case (Cons c cs)
    with a have sp: "is_space c" by simp
    from comment_groups [OF sp, of cs] obtain t gs where
      g: "cs = t @ concat gs" "CHR 0x0A \<notin> set t"
         "\<forall>g \<in> set gs. g \<noteq> [] \<and> is_space (hd g) \<and> CHR 0x0A \<notin> set (tl g)"
      by blast
    with sp Cons
    have "rest = concat ((c # t) # gs) \<and>
       (\<forall>g \<in> set ((c # t) # gs). g \<noteq> [] \<and> is_space (hd g) \<and> CHR 0x0A \<notin> set (tl g))"
      by simp
    then show ?thesis unfolding comment_shape_def by blast
  qed
qed

lemma takeWhile_all: "list_all P xs \<Longrightarrow> (ys = [] \<or> \<not> P (hd ys)) \<Longrightarrow> takeWhile P (xs @ ys) = xs"
  by (cases ys) (auto simp: list_all_iff takeWhile_append2)

lemma dropWhile_all: "list_all P xs \<Longrightarrow> (ys = [] \<or> \<not> P (hd ys)) \<Longrightarrow> dropWhile P (xs @ ys) = ys"
  by (cases ys) (auto simp: list_all_iff dropWhile_append2)

lemma colon_not_digit: "\<not> is_digit CHR '':''"
  by (simp add: is_digit_def)

lemma dash_not_space: "is_dash c \<Longrightarrow> \<not> is_space c \<and> \<not> is_digit c"
  by (simp add: is_dash_def is_space_def is_digit_def)

lemma space_not_digit: "is_space c \<Longrightarrow> \<not> is_digit c"
  using digit_not_sign by blast

lemma FindStringSubmatch_shape:
  assumes "line_shape line m1 m2"
  shows "FindStringSubmatch line = Some (m1, m2)"
proof -
  from assms obtain ws dashes ds rest where
    line: "line = m1 @ CHR '':'' # ws @ m2 @ rest"
    and m1: "m1 \<noteq> []" "list_all is_digit m1" and ws: "list_all is_space ws"
    and m2: "m2 = dashes @ ds" and dashes: "list_all is_dash dashes"
    and ds: "ds \<noteq> []" "list_all is_digit ds" and rest: "rest = [] \<or> is_space (hd rest)"
    unfolding line_shape_def comment_shape_iff by blast
  from ds obtain d ds' where d: "ds = d # ds'" "is_digit d" by (cases ds) auto
  have nc: "CHR '':'' # ws @ m2 @ rest = [] \<or> \<not> is_digit (hd (CHR '':'' # ws @ m2 @ rest))"
    by (simp add: colon_not_digit)
  have t1: "takeWhile is_digit line = m1" and d1: "dropWhile is_digit line = CHR '':'' # ws @ m2 @ rest"
    using takeWhile_all [OF m1(2) nc] dropWhile_all [OF m1(2) nc] line by simp_all
  have "m2 @ rest \<noteq> []" using m2 ds by simp
  moreover have "\<not> is_space (hd (m2 @ rest))"
  proof (cases dashes)
    case Nil
    with m2 d digit_not_sign show ?thesis by simp
  next
    case (Cons x xs)
    with dashes have "is_dash x" by simp
    with Cons m2 dash_not_space show ?thesis by simp
  qed
  ultimately have d3: "dropWhile is_space (ws @ m2 @ rest) = m2 @ rest"
    using ws by (simp add: dropWhile_all)
  have nd: "ds @ rest = [] \<or> \<not> is_dash (hd (ds @ rest))"
    using d digit_not_sign by simp
  have t4: "takeWhile is_dash (m2 @ rest) = dashes" and d4: "dropWhile is_dash (m2 @ rest) = ds @ rest"
    using takeWhile_all [OF dashes nd] dropWhile_all [OF dashes nd] m2 by simp_all
  have rd: "rest = [] \<or> \<not> is_digit (hd rest)"
    using rest space_not_digit by blast
  have t5: "takeWhile is_digit (ds @ rest) = ds" and d5: "dropWhile is_digit (ds @ rest) = rest"
    using takeWhile_all [OF ds(2) rd] dropWhile_all [OF ds(2) rd] by simp_all
  have "FindStringSubmatch line = Some (m1, dashes @ ds)"
    using m1(1) ds(1) rest
    by (simp add: FindStringSubmatch_def Let_def t1 d1 d3 t4 d4 t5 d5)
  with m2 show ?thesis by simp
qed

lemma shape_FindStringSubmatch:
  assumes "FindStringSubmatch line = Some (m1, m2)"
  shows "line_shape line m1 m2"
proof -
  from assms obtain r2 where m1: "m1 = takeWhile is_digit line" "m1 \<noteq> []"
    and r1: "dropWhile is_digit line = CHR '':'' # r2"
    and m2: "m2 = takeWhile is_dash (dropWhile is_space r2) @
              takeWhile is_digit (dropWhile is_dash (dropWhile is_space r2))"
    and ne: "takeWhile is_digit (dropWhile is_dash (dropWhile is_space r2)) \<noteq> []"
    and r5: "dropWhile is_digit (dropWhile is_dash (dropWhile is_space r2)) = [] \<or>
         is_space (hd (dropWhile is_digit (dropWhile is_dash (dropWhile is_space r2))))"
    by (rule FindStringSubmatch_Some)
  let ?ws = "takeWhile is_space r2"
  let ?r3 = "dropWhile is_space r2"
  let ?dashes = "takeWhile is_dash ?r3"
  let ?r4 = "dropWhile is_dash ?r3"
  let ?ds = "takeWhile is_digit ?r4"
  let ?r5 = "dropWhile is_digit ?r4"
  have "takeWhile is_digit line @ dropWhile is_digit line = line"
    by (rule takeWhile_dropWhile_id)
  then have e1: "line = m1 @ CHR '':'' # r2"
    unfolding r1 m1(1) [symmetric] by (rule sym)
  have e2: "r2 = ?ws @ ?dashes @ ?ds @ ?r5" by simp
  have "line = m1 @ CHR '':'' # ?ws @ m2 @ ?r5"
    unfolding m2 using e1 e2 by simp
  moreover have "comment_shape ?r5" using r5 by (simp add: comment_shape_iff)
  ultimately have "line = m1 @ CHR '':'' # ?ws @ m2 @ ?r5 \<and>
        m1 \<noteq> [] \<and> list_all is_digit m1 \<and> list_all is_space ?ws \<and>
        m2 = ?dashes @ ?ds \<and> list_all is_dash ?dashes \<and> ?ds \<noteq> [] \<and> list_all is_digit ?ds \<and>
        comment_shape ?r5"
    using m1 m2 ne by (simp add: list_all_takeWhile)
  then show ?thesis unfolding line_shape_def by blast
qed

lemma FindStringSubmatch_iff:
  "FindStringSubmatch line = Some (m1, m2) \<longleftrightarrow> line_shape line m1 m2"
  using FindStringSubmatch_shape shape_FindStringSubmatch by blast

lemma dom_ops: "dom ops = {0, 1, 2, 3, 5, 6, 7, 10, 11, 12, 13, 20, 21, 22, 23, 30, 31}"
  unfolding ops_def by (simp add: insert_commute)

lemma card_dom_ops: "card (dom ops) = 17"
  unfolding dom_ops by simp

lemma getInstruction_state_update [simp]:
  "getInstruction (h\<lparr>state := s\<rparr>) a = getInstruction h a"
  by (simp add: getInstruction_def)

lemma loadLines_None: "fst (loadLines ls h) = None \<Longrightarrow> list_all lineOk ls"
proof (induction ls arbitrary: h)
  case Nil
  show ?case by simp
next
  case (Cons l ls)
  show ?case
  proof (cases "parseLine l")
    case (Inl e)
    with Cons.prems show ?thesis by simp
  next
    case (Inr av)
    obtain a v where av: "av = (a, v)" by (cases av)
    with Inr Cons.prems
    have "fst (loadLines ls (h\<lparr>mem := (mem h)[nat a := boundsCap v]\<rparr>)) = None" by simp
    from Cons.IH [OF this] Inr show ?thesis by (simp add: lineOk_def)
  qed
qed

lemma apply_call_restores:
  assumes "state h \<noteq> CPUok" and "state (apply_call c h) = CPUok"
  shows "c = CallResetCPU \<or> (\<exists>ls. c = CallLoadProgram ls False \<and> list_all lineOk ls)"
proof (cases c)
  case (CallLoadProgram ls e)
  let ?init = "h\<lparr>state := CPUhalt, mem := replicate 50 0\<rparr>"
  obtain r h1 where l: "loadLines ls ?init = (r, h1)" by (cases "loadLines ls ?init")
  have st: "state h1 = CPUhalt"
    using loadLines_state [of ls ?init] l by simp
  have "r = None \<and> \<not> e"
    using assms(2) CallLoadProgram l st
    by (cases r) (auto simp: LoadProgram_def Let_def split: if_splits)
  moreover from this l have "list_all lineOk ls"
    using loadLines_None [of ls ?init] by simp
  ultimately show ?thesis using CallLoadProgram by simp
next
  case (CallStep inp)
  with assms show ?thesis using Step_state by auto
next
  case CallResetCPU
  then show ?thesis by simp
next
  case CallToggleTrace
  with assms show ?thesis by (simp add: ToggleTrace_def)
qed

lemmas decode_defs = getInstruction_def inBounds_def memSize_def NewMachine_def ops_def
  signed_divide_int_def signed_modulo_int_def

lemma LoadProgram_success_state:
  "fst (LoadProgram ls e h) = None \<Longrightarrow> state (snd (LoadProgram ls e h)) = CPUok"
  by (cases "loadLines ls (h\<lparr>state := CPUhalt, mem := replicate 50 0\<rparr>)")
     (auto simp: LoadProgram_def Let_def split: option.splits if_splits)

lemma getInstruction_UNK:
  assumes "inBounds a" and "ops (mem h ! nat a sdiv 1000) = None"
  shows "getInstruction h a = (\<lparr>op = ''UNK'', addr = mem h ! nat a smod 1000\<rparr>, CPUbadinst)"
  using assms by (simp add: getInstruction_def Let_def)

section \<open>The claims\<close>

subsection \<open>C1: the decoder\<close>

text \<open>
  Claim C1. For every machine and every fetch address, \<open>getInstruction\<close> returns:
  (unknown, 0) with invalid-instruction when the address is outside [0, 50), whether
  negative, equal to the size or beyond it; (unknown, word mod 1000) with
  invalid-instruction when the address is in range and the opcode (word div 1000, Go's
  truncating division) is not one of the 17 entries of the table; (op, target) with
  invalid-address when the opcode is known and the target is outside [0, 50); and
  (op, target) with runnable otherwise. The function returns no machine: it reads
  \<open>mem h\<close> and writes nothing.
\<close>

theorem getInstruction_verdicts:
  "card (dom ops) = 17 \<and>
   (\<not> (0 \<le> a \<and> a < 50) \<longrightarrow>
      getInstruction h a = (\<lparr>op = ''UNK'', addr = 0\<rparr>, CPUbadinst)) \<and>
   (0 \<le> a \<and> a < 50 \<and> mem h ! nat a sdiv 1000 \<notin> dom ops \<longrightarrow>
      getInstruction h a = (\<lparr>op = ''UNK'', addr = mem h ! nat a smod 1000\<rparr>, CPUbadinst)) \<and>
   (0 \<le> a \<and> a < 50 \<and> ops (mem h ! nat a sdiv 1000) = Some nm \<and>
    \<not> (0 \<le> mem h ! nat a smod 1000 \<and> mem h ! nat a smod 1000 < 50) \<longrightarrow>
      getInstruction h a = (\<lparr>op = nm, addr = mem h ! nat a smod 1000\<rparr>, CPUbadaddr)) \<and>
   (0 \<le> a \<and> a < 50 \<and> ops (mem h ! nat a sdiv 1000) = Some nm \<and>
    0 \<le> mem h ! nat a smod 1000 \<and> mem h ! nat a smod 1000 < 50 \<longrightarrow>
      getInstruction h a = (\<lparr>op = nm, addr = mem h ! nat a smod 1000\<rparr>, CPUok))"
proof -
  let ?w = "mem h ! nat a"
  have outside: "getInstruction h a = (\<lparr>op = ''UNK'', addr = 0\<rparr>, CPUbadinst)"
    if "\<not> (0 \<le> a \<and> a < 50)"
    using that by (simp add: getInstruction_def inBounds_def memSize_def)
  have unknown: "getInstruction h a = (\<lparr>op = ''UNK'', addr = ?w smod 1000\<rparr>, CPUbadinst)"
    if "0 \<le> a \<and> a < 50 \<and> ?w sdiv 1000 \<notin> dom ops"
    using that by (simp add: getInstruction_UNK inBounds_def memSize_def domIff)
  have known: "getInstruction h a =
      (\<lparr>op = nm, addr = ?w smod 1000\<rparr>,
       if 0 \<le> ?w smod 1000 \<and> ?w smod 1000 < 50 then CPUok else CPUbadaddr)"
    if "0 \<le> a \<and> a < 50 \<and> ops (?w sdiv 1000) = Some nm"
    using that by (simp add: getInstruction_def inBounds_def memSize_def Let_def)
  show ?thesis
    using card_dom_ops outside unknown known by simp
qed

text \<open>
  The five cases on one machine: addresses -1 and 50, the unassigned opcode 32, a jump
  to address 50, and \<^verbatim>\<open>PUT 49\<close>.
\<close>

theorem getInstruction_verdicts_witness:
  "getInstruction (NewMachine\<lparr>mem := (mem NewMachine)[0 := 31049, 1 := 32005, 2 := 1050]\<rparr>) (- 1)
     = (\<lparr>op = ''UNK'', addr = 0\<rparr>, CPUbadinst) \<and>
   getInstruction (NewMachine\<lparr>mem := (mem NewMachine)[0 := 31049, 1 := 32005, 2 := 1050]\<rparr>) 50
     = (\<lparr>op = ''UNK'', addr = 0\<rparr>, CPUbadinst) \<and>
   getInstruction (NewMachine\<lparr>mem := (mem NewMachine)[0 := 31049, 1 := 32005, 2 := 1050]\<rparr>) 1
     = (\<lparr>op = ''UNK'', addr = 5\<rparr>, CPUbadinst) \<and>
   getInstruction (NewMachine\<lparr>mem := (mem NewMachine)[0 := 31049, 1 := 32005, 2 := 1050]\<rparr>) 2
     = (\<lparr>op = ''JEQ'', addr = 50\<rparr>, CPUbadaddr) \<and>
   getInstruction (NewMachine\<lparr>mem := (mem NewMachine)[0 := 31049, 1 := 32005, 2 := 1050]\<rparr>) 0
     = (\<lparr>op = ''PUT'', addr = 49\<rparr>, CPUok)"
proof -
  let ?h = "NewMachine\<lparr>mem := (mem NewMachine)[0 := 31049, 1 := 32005, 2 := 1050]\<rparr>"
  have m: "mem ?h ! nat 0 = 31049" "mem ?h ! nat 1 = 32005" "mem ?h ! nat 2 = 1050"
    by (simp_all add: NewMachine_def)
  have d: "(31049::int) sdiv 1000 = 31" "(31049::int) smod 1000 = 49"
    "(32005::int) sdiv 1000 = 32" "(32005::int) smod 1000 = 5"
    "(1050::int) sdiv 1000 = 1" "(1050::int) smod 1000 = 50"
    by (simp_all add: signed_divide_int_def signed_modulo_int_def)
  have o: "ops 31 = Some ''PUT''" "ops 1 = Some ''JEQ''" "32 \<notin> dom ops"
    by (simp_all add: ops_def domIff)
  from getInstruction_verdicts [where a = "- 1" and h = ?h]
       getInstruction_verdicts [where a = 50 and h = ?h]
       getInstruction_verdicts [where a = 1 and h = ?h]
       getInstruction_verdicts [where a = 2 and h = ?h and nm = "''JEQ''"]
       getInstruction_verdicts [where a = 0 and h = ?h and nm = "''PUT''"]
  show ?thesis
    unfolding m d using o by simp
qed

subsection \<open>C2: division by zero\<close>

text \<open>
  Claim C2. For every machine whose PC holds a valid DIV instruction whose target cell
  contains 0, \<open>Step\<close> sets CPUState to divide-by-zero and leaves AC and MQ exactly as
  they were. Memory is unchanged too, no hook is called, and PC has advanced by one as
  for every decoded instruction.
\<close>

theorem Step_DIV_zero:
  assumes "getInstruction h (pc h) = (i, CPUok)" and "op i = ''DIV''"
    and "mem h ! nat (addr i) = 0"
  shows "state (fst (Step inp h)) = CPUdivzero \<and>
         ac (fst (Step inp h)) = ac h \<and> mq (fst (Step inp h)) = mq h \<and>
         mem (fst (Step inp h)) = mem h \<and> pc (fst (Step inp h)) = pc h + 1 \<and>
         snd (Step inp h) = (if trace h then [Traced i] else [])"
  using assms by (simp add: Step_ok exec_DIV)

text \<open>The case of the test suite: MQ = 12, \<^verbatim>\<open>DIV 1\<close> at address 0, cell 1 zero.\<close>

theorem Step_DIV_zero_witness:
  "state (fst (Step 0 (NewMachine\<lparr>mq := 12, ac := 7, mem := (mem NewMachine)[0 := 23001]\<rparr>)))
     = CPUdivzero \<and>
   ac (fst (Step 0 (NewMachine\<lparr>mq := 12, ac := 7, mem := (mem NewMachine)[0 := 23001]\<rparr>))) = 7 \<and>
   mq (fst (Step 0 (NewMachine\<lparr>mq := 12, ac := 7, mem := (mem NewMachine)[0 := 23001]\<rparr>))) = 12"
proof -
  let ?h = "NewMachine\<lparr>mq := 12, ac := 7, mem := (mem NewMachine)[0 := 23001]\<rparr>"
  have g: "getInstruction ?h (pc ?h) = (\<lparr>op = ''DIV'', addr = 1\<rparr>, CPUok)"
    by (simp add: decode_defs)
  have z: "mem ?h ! nat (addr \<lparr>op = ''DIV'', addr = 1\<rparr>) = 0"
    by (simp add: NewMachine_def)
  from Step_DIV_zero [OF g _ z, of 0] show ?thesis
    by (simp add: NewMachine_def)
qed

subsection \<open>C3: the value range\<close>

text \<open>
  Claim C3. Starting from a newly created machine, after any sequence of
  \<open>LoadProgram\<close>, \<open>Step\<close> (with any integer returned by the read hook), \<open>ResetCPU\<close>
  and \<open>ToggleTrace\<close> calls, the memory has its 50 cells and every cell, AC and MQ lie in
  [-99999, 99999]; so \<open>boundsCap\<close> would change none of them, and the copies between
  registers and memory need no clamp.
\<close>

theorem values_always_in_range:
  fixes cs :: "call list"
  defines "h \<equiv> run_calls cs NewMachine"
  shows "length (mem h) = 50 \<and>
         (\<forall>a. 0 \<le> a \<and> a < 50 \<longrightarrow> - 99999 \<le> mem h ! nat a \<and> mem h ! nat a \<le> 99999 \<and>
                boundsCap (mem h ! nat a) = mem h ! nat a) \<and>
         - 99999 \<le> ac h \<and> ac h \<le> 99999 \<and> boundsCap (ac h) = ac h \<and>
         - 99999 \<le> mq h \<and> mq h \<le> 99999 \<and> boundsCap (mq h) = mq h"
proof -
  have inv: "values_in_range h"
    unfolding h_def by (rule run_calls_values_in_range [OF NewMachine_values_in_range])
  then have len: "length (mem h) = 50" and ac: "in_range (ac h)" and mq: "in_range (mq h)"
    by (simp_all add: values_in_range_def)
  have cells: "in_range (mem h ! nat a)" if "0 \<le> a \<and> a < 50" for a
  proof -
    from that len have "nat a < length (mem h)" by auto
    with inv show ?thesis by (simp add: values_in_range_def in_range_nth)
  qed
  show ?thesis
    using len ac mq cells by (auto simp: boundsCap_id) (simp_all add: in_range_def)
qed

text \<open>
  Load \<^verbatim>\<open>GET 2\<close> and \<^verbatim>\<open>LAC 2\<close>, read 123456 and copy it to AC: the cell and AC hold the
  clamped 99999.
\<close>

theorem values_always_in_range_witness:
  "mem (run_calls [CallLoadProgram [''0: 30002'', ''1: 10002''] False, CallStep 123456, CallStep 0]
          NewMachine) ! nat 2 = 99999 \<and>
   ac (run_calls [CallLoadProgram [''0: 30002'', ''1: 10002''] False, CallStep 123456, CallStep 0]
          NewMachine) = 99999 \<and>
   boundsCap (ac (run_calls [CallLoadProgram [''0: 30002'', ''1: 10002''] False, CallStep 123456,
          CallStep 0] NewMachine)) = 99999 \<and>
   length (mem (run_calls [CallLoadProgram [''0: 30002'', ''1: 10002''] False, CallStep 123456,
          CallStep 0] NewMachine)) = 50"
proof -
  let ?cs = "[CallLoadProgram [''0: 30002'', ''1: 10002''] False, CallStep 123456, CallStep 0]"
  have e: "mem (run_calls ?cs NewMachine) ! nat 2 = 99999" "ac (run_calls ?cs NewMachine) = 99999"
    by code_simp+
  from values_always_in_range [of ?cs] e show ?thesis by simp
qed

subsection \<open>C4: the loader stops at the first failing line\<close>

text \<open>
  Claim C4. \<open>LoadProgram\<close> zeroes the 50 cells before parsing (an empty input leaves
  them all zero) and holds CPUState at halted throughout the load: a load that the
  reader cuts after any prefix of the lines returns an error with the machine halted, and
  that machine is the one the loop holds after the prefix. Lines are applied in input
  order and the first failing line stops the load: the result is then its typed error
  (bad-line, bad-address or bad-value), CPUState is halted and memory is the zeroed
  memory with exactly the assignments of the lines before it, each value clamped to
  [-99999, 99999] (\<open>max (- 99999) (min 99999 v)\<close>). A read failure after accepted lines
  gives bad-file, with CPUState halted. CPUState is runnable afterwards exactly when
  every line loads and the scanner reports no error, and otherwise halted; in every case
  the 50 cells lie in [-99999, 99999].
\<close>

theorem LoadProgram_fail_fast:
  "LoadProgram [] False h = (None, h\<lparr>state := CPUok, mem := replicate 50 0\<rparr>) \<and>
   (\<forall>pre post. lines = pre @ post \<longrightarrow>
      state (snd (LoadProgram pre True h)) = CPUhalt \<and>
      fst (LoadProgram pre True h) \<noteq> None \<and>
      snd (LoadProgram pre True h) =
        snd (loadLines pre (h\<lparr>state := CPUhalt, mem := replicate 50 0\<rparr>))) \<and>
   (\<forall>pre l post e. lines = pre @ l # post \<and> list_all lineOk pre \<and> parseLine l = Inl e \<longrightarrow>
      e \<in> {loadErrBadLine, loadErrBadAddr, loadErrBadValue} \<and>
      LoadProgram lines scan_err h =
        (Some e, h\<lparr>state := CPUhalt,
                   mem := foldl (\<lambda>m av. m[nat (fst av) := max (- 99999) (min 99999 (snd av))])
                            (replicate 50 0) (map assignment pre)\<rparr>)) \<and>
   (list_all lineOk lines \<and> scan_err \<longrightarrow>
      LoadProgram lines scan_err h =
        (Some loadErrBadFile, h\<lparr>state := CPUhalt,
                   mem := foldl (\<lambda>m av. m[nat (fst av) := max (- 99999) (min 99999 (snd av))])
                            (replicate 50 0) (map assignment lines)\<rparr>)) \<and>
   (list_all lineOk lines \<and> \<not> scan_err \<longrightarrow>
      LoadProgram lines scan_err h =
        (None, h\<lparr>state := CPUok,
                 mem := foldl (\<lambda>m av. m[nat (fst av) := max (- 99999) (min 99999 (snd av))])
                          (replicate 50 0) (map assignment lines)\<rparr>)) \<and>
   (state (snd (LoadProgram lines scan_err h)) = CPUok \<longleftrightarrow>
      list_all lineOk lines \<and> \<not> scan_err) \<and>
   (state (snd (LoadProgram lines scan_err h)) \<noteq> CPUok \<longrightarrow>
      state (snd (LoadProgram lines scan_err h)) = CPUhalt \<and>
      fst (LoadProgram lines scan_err h) \<noteq> None) \<and>
   length (mem (snd (LoadProgram lines scan_err h))) = 50 \<and>
   (\<forall>i < 50. - 99999 \<le> mem (snd (LoadProgram lines scan_err h)) ! i \<and>
             mem (snd (LoadProgram lines scan_err h)) ! i \<le> 99999)"
proof -
  let ?init = "h\<lparr>state := CPUhalt, mem := replicate 50 0\<rparr>"
  have st: "stored ls =
      foldl (\<lambda>m av. m[nat (fst av) := max (- 99999) (min 99999 (snd av))])
        (replicate 50 0) (map assignment ls)" for ls
  proof -
    have "store = (\<lambda>m av. m[nat (fst av) := max (- 99999) (min 99999 (snd av))])"
      by (intro ext) (simp add: store_def)
    then show ?thesis by (simp add: stored_def)
  qed
  have 2: "LoadProgram [] False h = (None, h\<lparr>state := CPUok, mem := replicate 50 0\<rparr>)"
    by (simp add: LoadProgram_def)
  have 3: "state (snd (LoadProgram pre True h)) = CPUhalt \<and>
      fst (LoadProgram pre True h) \<noteq> None \<and>
      snd (LoadProgram pre True h) = snd (loadLines pre ?init)" for pre
  proof -
    obtain r h1 where l: "loadLines pre ?init = (r, h1)" by (cases "loadLines pre ?init")
    have "state h1 = CPUhalt" using loadLines_state [of pre ?init] l by simp
    with l show ?thesis by (cases r) (simp_all add: LoadProgram_def)
  qed
  have 4: "LoadProgram lines scan_err h = (Some e, h\<lparr>state := CPUhalt, mem := stored pre\<rparr>)"
    if "lines = pre @ l # post" "list_all lineOk pre" "parseLine l = Inl e" for pre l post e
    using that by (simp add: LoadProgram_def loadLines_first_failure stored_def)
  have 5: "LoadProgram lines scan_err h =
      (if scan_err then (Some loadErrBadFile, h\<lparr>state := CPUhalt, mem := stored lines\<rparr>)
       else (None, h\<lparr>state := CPUok, mem := stored lines\<rparr>))"
    if "list_all lineOk lines"
    using that by (simp add: LoadProgram_def loadLines_all_ok stored_def)
  have split: "list_all lineOk lines \<or>
      (\<exists>pre l post e. lines = pre @ l # post \<and> list_all lineOk pre \<and> parseLine l = Inl e)"
  proof (cases "list_all lineOk lines")
    case True
    then show ?thesis by simp
  next
    case False
    then have "\<exists>x\<in>set lines. \<not> lineOk x" by (simp add: list_all_iff)
    then obtain pre l post where d: "lines = pre @ l # post" "\<not> lineOk l" "\<forall>p\<in>set pre. lineOk p"
      using split_list_first_prop [of lines "\<lambda>x. \<not> lineOk x"] by auto
    from d(2) obtain e where "parseLine l = Inl e"
      by (auto simp: lineOk_def split: sum.splits)
    with d show ?thesis by (auto simp: list_all_iff)
  qed
  have 6: "state (snd (LoadProgram lines scan_err h)) = CPUok \<longleftrightarrow>
            list_all lineOk lines \<and> \<not> scan_err"
    using split 4 5 by (cases "list_all lineOk lines") auto
  have 7: "state (snd (LoadProgram lines scan_err h)) \<noteq> CPUok \<longrightarrow>
            state (snd (LoadProgram lines scan_err h)) = CPUhalt \<and>
            fst (LoadProgram lines scan_err h) \<noteq> None"
    using split 4 5 by (cases "list_all lineOk lines") auto
  have c3: "\<forall>pre post. lines = pre @ post \<longrightarrow>
      state (snd (LoadProgram pre True h)) = CPUhalt \<and>
      fst (LoadProgram pre True h) \<noteq> None \<and>
      snd (LoadProgram pre True h) = snd (loadLines pre ?init)"
    using 3 by blast
  have c4: "\<forall>pre l post e. lines = pre @ l # post \<and> list_all lineOk pre \<and> parseLine l = Inl e \<longrightarrow>
      e \<in> {loadErrBadLine, loadErrBadAddr, loadErrBadValue} \<and>
      LoadProgram lines scan_err h =
        (Some e, h\<lparr>state := CPUhalt,
                   mem := foldl (\<lambda>m av. m[nat (fst av) := max (- 99999) (min 99999 (snd av))])
                            (replicate 50 0) (map assignment pre)\<rparr>)"
    using 4 parseLine_errors unfolding st by blast
  have c5: "list_all lineOk lines \<and> scan_err \<longrightarrow>
      LoadProgram lines scan_err h =
        (Some loadErrBadFile, h\<lparr>state := CPUhalt,
                   mem := foldl (\<lambda>m av. m[nat (fst av) := max (- 99999) (min 99999 (snd av))])
                            (replicate 50 0) (map assignment lines)\<rparr>)"
    using 5 unfolding st by auto
  have c6: "list_all lineOk lines \<and> \<not> scan_err \<longrightarrow>
      LoadProgram lines scan_err h =
        (None, h\<lparr>state := CPUok,
                 mem := foldl (\<lambda>m av. m[nat (fst av) := max (- 99999) (min 99999 (snd av))])
                          (replicate 50 0) (map assignment lines)\<rparr>)"
    using 5 unfolding st by auto
  have inv: "length (mem (snd (loadLines ls m))) = 50 \<and> list_all in_range (mem (snd (loadLines ls m)))"
    if "length (mem m) = 50 \<and> list_all in_range (mem m)" for ls m
    using that
  proof (induction ls arbitrary: m)
    case Nil
    then show ?case by simp
  next
    case (Cons x xs)
    show ?case
    proof (cases "parseLine x")
      case (Inl e)
      with Cons.prems show ?thesis by simp
    next
      case (Inr av)
      obtain a v where av: "av = (a, v)" by (cases av)
      have "length (mem (m\<lparr>mem := (mem m)[nat a := boundsCap v]\<rparr>)) = 50 \<and>
          list_all in_range (mem (m\<lparr>mem := (mem m)[nat a := boundsCap v]\<rparr>))"
        using Cons.prems by (simp add: in_range_update in_range_boundsCap)
      from Cons.IH [OF this] Inr av show ?thesis by simp
    qed
  qed
  have "length (mem ?init) = 50 \<and> list_all in_range (mem ?init)"
    by (simp add: zero_in_range)
  from inv [OF this, of lines]
  have m: "length (mem (snd (LoadProgram lines scan_err h))) = 50"
    "list_all in_range (mem (snd (LoadProgram lines scan_err h)))"
    by (cases "loadLines lines ?init"; cases "fst (loadLines lines ?init)";
        simp add: LoadProgram_def)+
  have c8: "\<forall>i < 50. - 99999 \<le> mem (snd (LoadProgram lines scan_err h)) ! i \<and>
             mem (snd (LoadProgram lines scan_err h)) ! i \<le> 99999"
    using m in_range_nth [of "mem (snd (LoadProgram lines scan_err h))"]
    by (auto simp: in_range_def)
  show ?thesis
    by (intro conjI) (fact 2 c3 c4 c5 c6 6 7 m(1) c8)+
qed

text \<open>
  A machine with a nonzero cell 7 loads five lines, the fourth malformed: the error is
  bad-line, the machine is halted, cell 7 is zero again, cells 0, 1 and 3 hold 100, the
  clamped 99999 and the clamped -99999, and the fifth line is not applied. Two lines for
  address 0: the last one wins and the machine is runnable.
\<close>

theorem LoadProgram_fail_fast_witness:
  "LoadProgram [''0: 100'', ''1: 200000 // clamped'', ''3: -200000'', ''a: 100'', ''2: 5''] False
     (NewMachine\<lparr>mem := (mem NewMachine)[7 := 1]\<rparr>) =
     (Some loadErrBadLine,
      NewMachine\<lparr>mem := (replicate 50 0)[0 := 100, 1 := 99999, 3 := - 99999],
                   state := CPUhalt\<rparr>) \<and>
   LoadProgram [''0: 100'', ''0: 200''] False NewMachine =
     (None, NewMachine\<lparr>mem := (replicate 50 0)[0 := 200]\<rparr>)"
proof -
  let ?pre = "[''0: 100'', ''1: 200000 // clamped'', ''3: -200000'']"
  let ?h = "NewMachine\<lparr>mem := (mem NewMachine)[7 := 1]\<rparr>"
  have ok: "list_all lineOk ?pre" by code_simp
  have bad: "parseLine ''a: 100'' = Inl loadErrBadLine" by code_simp
  have st: "foldl (\<lambda>m av. m[nat (fst av) := max (- 99999) (min 99999 (snd av))])
      (replicate 50 0) (map assignment ?pre) = (replicate 50 0)[0 := 100, 1 := 99999, 3 := - 99999]"
    by code_simp
  have ok2: "list_all lineOk [''0: 100'', ''0: 200'']" by code_simp
  have st2: "foldl (\<lambda>m av. m[nat (fst av) := max (- 99999) (min 99999 (snd av))])
      (replicate 50 0) (map assignment [''0: 100'', ''0: 200'']) = (replicate 50 0)[0 := 200]"
    by code_simp
  from LoadProgram_fail_fast [where lines = "?pre @ ''a: 100'' # [''2: 5'']" and h = ?h
      and scan_err = False]
  have "LoadProgram (?pre @ ''a: 100'' # [''2: 5'']) False ?h =
      (Some loadErrBadLine, ?h\<lparr>state := CPUhalt,
         mem := foldl (\<lambda>m av. m[nat (fst av) := max (- 99999) (min 99999 (snd av))])
                  (replicate 50 0) (map assignment ?pre)\<rparr>)"
    using ok bad by blast
  moreover from LoadProgram_fail_fast [where lines = "[''0: 100'', ''0: 200'']" and h = NewMachine
      and scan_err = False]
  have "LoadProgram [''0: 100'', ''0: 200''] False NewMachine =
      (None, NewMachine\<lparr>state := CPUok,
         mem := foldl (\<lambda>m av. m[nat (fst av) := max (- 99999) (min 99999 (snd av))])
                  (replicate 50 0) (map assignment [''0: 100'', ''0: 200''])\<rparr>)"
    using ok2 by blast
  ultimately show ?thesis
    unfolding st st2 by (simp add: NewMachine_def)
qed

subsection \<open>C5: a word that does not decode\<close>

text \<open>
  Claim C5. For every machine, if decoding the word at PC yields a verdict other than
  runnable (invalid-instruction or invalid-address), \<open>Step\<close> sets CPUState to that
  verdict and changes nothing else: PC, AC, MQ and every memory cell are unchanged, and
  no hook is invoked (the list of events is empty).
\<close>

theorem Step_decode_failure:
  assumes "snd (getInstruction h (pc h)) \<noteq> CPUok"
  shows "snd (getInstruction h (pc h)) \<in> {CPUbadinst, CPUbadaddr} \<and>
         Step inp h = (h\<lparr>state := snd (getInstruction h (pc h))\<rparr>, []) \<and>
         pc (fst (Step inp h)) = pc h \<and> ac (fst (Step inp h)) = ac h \<and>
         mq (fst (Step inp h)) = mq h \<and> mem (fst (Step inp h)) = mem h \<and>
         snd (Step inp h) = []"
  using assms getInstruction_not_ok [of h "pc h"] by (auto simp: Step_not_ok)

text \<open>A jump to address 50 at PC = 0: only the state changes, to invalid-address.\<close>

theorem Step_decode_failure_witness:
  "Step 0 (NewMachine\<lparr>ac := 3, mq := 4, mem := (mem NewMachine)[0 := 5050]\<rparr>) =
     (NewMachine\<lparr>ac := 3, mq := 4, mem := (mem NewMachine)[0 := 5050], state := CPUbadaddr\<rparr>, [])"
proof -
  let ?h = "NewMachine\<lparr>ac := 3, mq := 4, mem := (mem NewMachine)[0 := 5050]\<rparr>"
  have g: "getInstruction ?h (pc ?h) = (\<lparr>op = ''JMP'', addr = 50\<rparr>, CPUbadaddr)"
    by (simp add: decode_defs)
  then have "snd (getInstruction ?h (pc ?h)) \<noteq> CPUok" by simp
  from Step_decode_failure [OF this, of 0] g show ?thesis by simp
qed

subsection \<open>C6: division\<close>

text \<open>
  Claim C6. For every machine whose PC holds a valid DIV instruction with a nonzero
  divisor \<open>d = memory[target]\<close>, \<open>Step\<close> sets AC to the remainder and MQ to the
  quotient of MQ by \<open>d\<close> in truncating division (\<open>smod\<close>, \<open>sdiv\<close>): the two recompose
  MQ, the remainder is smaller than the divisor in absolute value and, when not zero, has
  the sign of the dividend. MQ is a Go \<^verbatim>\<open>int\<close>; as in Go, the one quotient that is not
  an \<^verbatim>\<open>int\<close>, \<open>minInt / -1\<close>, is left out.
\<close>

theorem Step_DIV:
  assumes "getInstruction h (pc h) = (i, CPUok)" and "op i = ''DIV''"
    and "d = mem h ! nat (addr i)" and "d \<noteq> 0"
    and "is_int (mq h)" and "\<not> (mq h = minInt \<and> d = - 1)"
  shows "ac (fst (Step inp h)) = mq h smod d \<and> mq (fst (Step inp h)) = mq h sdiv d \<and>
         mq h = (mq h sdiv d) * d + mq h smod d \<and> \<bar>mq h smod d\<bar> < \<bar>d\<bar> \<and>
         (mq h smod d \<noteq> 0 \<longrightarrow> sgn (mq h smod d) = sgn (mq h)) \<and>
         state (fst (Step inp h)) = state h"
  using assms
  by (simp add: Step_ok exec_DIV wrap64_id sdiv_is_int smod_sign smod_abs_less sdiv_mult_smod_eq)

text \<open>The two examples of the claim: 12 by 9 is 1 remainder 3, -12 by 9 is -1 remainder -3.\<close>

theorem Step_DIV_witness:
  "mq (fst (Step 0 (NewMachine\<lparr>mq := 12, mem := (mem NewMachine)[0 := 23001, 1 := 9]\<rparr>))) = 1 \<and>
   ac (fst (Step 0 (NewMachine\<lparr>mq := 12, mem := (mem NewMachine)[0 := 23001, 1 := 9]\<rparr>))) = 3 \<and>
   mq (fst (Step 0 (NewMachine\<lparr>mq := - 12, mem := (mem NewMachine)[0 := 23001, 1 := 9]\<rparr>))) = - 1 \<and>
   ac (fst (Step 0 (NewMachine\<lparr>mq := - 12, mem := (mem NewMachine)[0 := 23001, 1 := 9]\<rparr>))) = - 3"
proof -
  let ?h = "\<lambda>q. NewMachine\<lparr>mq := q, mem := (mem NewMachine)[0 := 23001, 1 := 9]\<rparr>"
  have g: "getInstruction (?h q) (pc (?h q)) = (\<lparr>op = ''DIV'', addr = 1\<rparr>, CPUok)" for q
    by (simp add: decode_defs)
  have d: "9 = mem (?h q) ! nat (addr \<lparr>op = ''DIV'', addr = 1\<rparr>)" for q
    by (simp add: NewMachine_def)
  have i: "is_int (mq (?h 12))" "is_int (mq (?h (- 12)))"
    "\<not> (mq (?h 12) = minInt \<and> (9::int) = - 1)" "\<not> (mq (?h (- 12)) = minInt \<and> (9::int) = - 1)"
    by (simp_all add: is_int_def minInt_def maxInt_def)
  have v: "(12::int) sdiv 9 = 1" "(12::int) smod 9 = 3" "(- 12::int) sdiv 9 = - 1"
    "(- 12::int) smod 9 = - 3"
    by (simp_all add: signed_divide_int_def signed_modulo_int_def)
  from Step_DIV [OF g _ d _ i(1) i(3), of 0] Step_DIV [OF g _ d _ i(2) i(4), of 0]
  show ?thesis by (simp add: v)
qed

subsection \<open>C7: the unassigned opcode 32\<close>

text \<open>
  Claim C7 as stated (decoding a word with opcode digits 32 returns (unknown, 0)
  whatever the target digits) fails for the word 32005 at address 0: the decoder
  reports the target 5.
\<close>

theorem getInstruction_opcode_32_counterexample:
  "mem (NewMachine\<lparr>mem := (mem NewMachine)[0 := 32005]\<rparr>) ! nat 0 sdiv 1000 = 32 \<and>
   getInstruction (NewMachine\<lparr>mem := (mem NewMachine)[0 := 32005]\<rparr>) 0
     \<noteq> (\<lparr>op = ''UNK'', addr = 0\<rparr>, CPUbadinst)"
  by (simp add: decode_defs)

text \<open>
  Claim C7, amended. For every memory word whose opcode digits equal 32, at an address
  in [0, 50), decoding returns (unknown, word mod 1000) with state invalid-instruction:
  the target digits are reported, and the result is (unknown, 0) exactly when they are
  000.
\<close>

theorem getInstruction_opcode_32:
  assumes "0 \<le> a \<and> a < 50" and "mem h ! nat a sdiv 1000 = 32"
  shows "getInstruction h a = (\<lparr>op = ''UNK'', addr = mem h ! nat a smod 1000\<rparr>, CPUbadinst) \<and>
         (getInstruction h a = (\<lparr>op = ''UNK'', addr = 0\<rparr>, CPUbadinst) \<longleftrightarrow>
            mem h ! nat a smod 1000 = 0)"
proof -
  have "ops 32 = None" by (simp add: ops_def)
  with assms have "getInstruction h a =
      (\<lparr>op = ''UNK'', addr = mem h ! nat a smod 1000\<rparr>, CPUbadinst)"
    by (simp add: getInstruction_UNK inBounds_def memSize_def)
  then show ?thesis by auto
qed

text \<open>The words 32005 and 32000 (the one of the test suite) at address 0.\<close>

theorem getInstruction_opcode_32_witness:
  "getInstruction (NewMachine\<lparr>mem := (mem NewMachine)[0 := 32005]\<rparr>) 0
     = (\<lparr>op = ''UNK'', addr = 5\<rparr>, CPUbadinst) \<and>
   getInstruction (NewMachine\<lparr>mem := (mem NewMachine)[0 := 32000]\<rparr>) 0
     = (\<lparr>op = ''UNK'', addr = 0\<rparr>, CPUbadinst)"
proof -
  let ?h = "\<lambda>w. NewMachine\<lparr>mem := (mem NewMachine)[0 := w]\<rparr>"
  have m: "mem (?h w) ! nat 0 = w" for w by (simp add: NewMachine_def)
  have d: "(32005::int) sdiv 1000 = 32" "(32005::int) smod 1000 = 5"
    "(32000::int) sdiv 1000 = 32" "(32000::int) smod 1000 = 0"
    by (simp_all add: signed_divide_int_def signed_modulo_int_def)
  have r: "(0::int) \<le> 0 \<and> (0::int) < 50" by simp
  from getInstruction_opcode_32 [of 0 "?h 32005", OF r] getInstruction_opcode_32 [of 0 "?h 32000", OF r]
  show ?thesis unfolding m d by simp
qed

subsection \<open>C8: the bad-value failure\<close>

text \<open>
  Claim C8 as stated (\<open>LoadProgram\<close> never returns bad-value, since every value token
  that the grammar accepts parses as an integer) fails for the line \<^verbatim>\<open>0: --5\<close>: the
  expression accepts any number of \<^verbatim>\<open>-\<close>, \<open>Atoi\<close> accepts one.
\<close>

theorem LoadProgram_BadValue_counterexample:
  "FindStringSubmatch ''0: --5'' = Some (''0'', ''--5'') \<and> Atoi ''--5'' = None \<and>
   fst (LoadProgram [''0: --5''] False NewMachine) = Some loadErrBadValue"
  by code_simp

text \<open>
  Claim C8, amended. \<open>LoadProgram\<close> returns bad-value exactly when the first line it
  rejects matches the grammar with an address in [0, 50) and has a value token that is
  not plain: one with two or more leading \<^verbatim>\<open>-\<close>, or whose value is not a 64-bit
  integer. When every value token of the input is plain, bad-value is not returned.
\<close>

theorem LoadProgram_BadValue:
  "(fst (LoadProgram lines scan_err h) = Some loadErrBadValue \<longleftrightarrow>
      (\<exists>pre l post m1 m2 a. lines = pre @ l # post \<and> list_all lineOk pre \<and>
         FindStringSubmatch l = Some (m1, m2) \<and> Atoi m1 = Some a \<and> 0 \<le> a \<and> a < 50 \<and>
         \<not> plain_value m2)) \<and>
   ((\<forall>l \<in> set lines. \<forall>m1 m2. FindStringSubmatch l = Some (m1, m2) \<longrightarrow> plain_value m2) \<longrightarrow>
      fst (LoadProgram lines scan_err h) \<noteq> Some loadErrBadValue)"
proof -
  have iff: "fst (LoadProgram lines scan_err h) = Some loadErrBadValue \<longleftrightarrow>
      (\<exists>pre l post m1 m2 a. lines = pre @ l # post \<and> list_all lineOk pre \<and>
         FindStringSubmatch l = Some (m1, m2) \<and> Atoi m1 = Some a \<and> 0 \<le> a \<and> a < 50 \<and>
         \<not> plain_value m2)"
    unfolding LoadProgram_BadValue_loadLines loadLines_error_line parseLine_BadValue by blast
  moreover have "fst (LoadProgram lines scan_err h) \<noteq> Some loadErrBadValue"
    if "\<forall>l \<in> set lines. \<forall>m1 m2. FindStringSubmatch l = Some (m1, m2) \<longrightarrow> plain_value m2"
  proof
    assume "fst (LoadProgram lines scan_err h) = Some loadErrBadValue"
    with iff obtain pre l post m1 m2 where "lines = pre @ l # post"
      "FindStringSubmatch l = Some (m1, m2)" "\<not> plain_value m2" by blast
    with that show False by auto
  qed
  ultimately show ?thesis by blast
qed

text \<open>
  The value 2^63 is not an \<^verbatim>\<open>int\<close>: bad-value, after an accepted first line. Two lines
  with plain values: no bad-value, here with a read failure at the end.
\<close>

theorem LoadProgram_BadValue_witness:
  "fst (LoadProgram [''0: 1'', ''1: 9223372036854775808''] False NewMachine)
     = Some loadErrBadValue \<and>
   fst (LoadProgram [''0: -5'', ''1: 77 seventy-seven''] True NewMachine) \<noteq> Some loadErrBadValue"
proof -
  have ok: "list_all lineOk [''0: 1'']" by code_simp
  have m: "FindStringSubmatch ''1: 9223372036854775808'' = Some (''1'', ''9223372036854775808'')"
    by code_simp
  have a: "Atoi ''1'' = Some 1" by code_simp
  have np: "\<not> plain_value ''9223372036854775808''" by code_simp
  have "\<exists>pre l post m1 m2 a. [''0: 1'', ''1: 9223372036854775808''] = pre @ l # post \<and>
      list_all lineOk pre \<and> FindStringSubmatch l = Some (m1, m2) \<and> Atoi m1 = Some a \<and>
      0 \<le> a \<and> a < 50 \<and> \<not> plain_value m2"
  proof (intro exI conjI)
    show "[''0: 1'', ''1: 9223372036854775808''] = [''0: 1''] @ ''1: 9223372036854775808'' # []"
      by simp
    show "list_all lineOk [''0: 1'']" by (rule ok)
    show "FindStringSubmatch ''1: 9223372036854775808'' = Some (''1'', ''9223372036854775808'')"
      by (rule m)
    show "Atoi ''1'' = Some 1" by (rule a)
    show "(0::int) \<le> 1" "(1::int) < 50" by simp_all
    show "\<not> plain_value ''9223372036854775808''" by (rule np)
  qed
  with LoadProgram_BadValue [of "[''0: 1'', ''1: 9223372036854775808'']" False NewMachine]
  have 1: "fst (LoadProgram [''0: 1'', ''1: 9223372036854775808''] False NewMachine)
     = Some loadErrBadValue" by blast
  have f: "FindStringSubmatch ''0: -5'' = Some (''0'', ''-5'')"
    "FindStringSubmatch ''1: 77 seventy-seven'' = Some (''1'', ''77'')"
    by code_simp+
  have p: "plain_value ''-5''" "plain_value ''77''" by code_simp+
  have "\<forall>l \<in> set [''0: -5'', ''1: 77 seventy-seven''].
      \<forall>m1 m2. FindStringSubmatch l = Some (m1, m2) \<longrightarrow> plain_value m2"
    using f p by simp
  with LoadProgram_BadValue [of "[''0: -5'', ''1: 77 seventy-seven'']" True NewMachine]
  have 2: "fst (LoadProgram [''0: -5'', ''1: 77 seventy-seven''] True NewMachine)
     \<noteq> Some loadErrBadValue" by blast
  from 1 2 show ?thesis by simp
qed

subsection \<open>C9: stepping a machine that is not runnable\<close>

text \<open>
  Claim C9. For every machine whose CPUState is not runnable, calling \<open>Step\<close> is
  harmless: it leaves AC, MQ and every memory cell unchanged. The repository documents
  this behaviour (the README says of each of the four states that no further execution
  will occur; \<^verbatim>\<open>machine.go\<close> says that the machine needs to be reset and that execution
  cannot continue), but \<open>Step\<close> never tests the state. On the machine obtained by
  loading \<^verbatim>\<open>GET 3\<close> at address 1 and \<^verbatim>\<open>LAC 3\<close> at address 2 and stepping once, which
  executes \<^verbatim>\<open>HLT\<close> at address 0 and halts with PC = 1, the next step still calls the
  read hook and stores 42 in cell 3, and the step after it copies 42 to AC; the machine
  is halted all along.
\<close>

theorem Step_executes_when_halted:
  "state (fst (Step 0 (snd (LoadProgram [''1: 30003'', ''2: 10003''] False NewMachine))))
     = CPUhalt \<and>
   mem (fst (Step 0 (snd (LoadProgram [''1: 30003'', ''2: 10003''] False NewMachine)))) ! 3
     = 0 \<and>
   ac (fst (Step 0 (snd (LoadProgram [''1: 30003'', ''2: 10003''] False NewMachine)))) = 0 \<and>
   snd (Step 42 (fst (Step 0 (snd (LoadProgram [''1: 30003'', ''2: 10003''] False NewMachine)))))
     = [InputRead 42] \<and>
   mem (fst (Step 42 (fst (Step 0
       (snd (LoadProgram [''1: 30003'', ''2: 10003''] False NewMachine)))))) ! 3 = 42 \<and>
   state (fst (Step 42 (fst (Step 0
       (snd (LoadProgram [''1: 30003'', ''2: 10003''] False NewMachine)))))) = CPUhalt \<and>
   ac (fst (Step 0 (fst (Step 42 (fst (Step 0
       (snd (LoadProgram [''1: 30003'', ''2: 10003''] False NewMachine)))))))) = 42 \<and>
   state (fst (Step 0 (fst (Step 42 (fst (Step 0
       (snd (LoadProgram [''1: 30003'', ''2: 10003''] False NewMachine)))))))) = CPUhalt"
  by code_simp

subsection \<open>C10: Step never makes the machine runnable\<close>

text \<open>
  Claim C10. \<open>Step\<close> never assigns the runnable CPUState: if CPUState is runnable after
  a step, it was runnable before. So once the machine has left the runnable state no
  sequence of \<open>Step\<close> calls restores it; \<open>ResetCPU\<close> and a successful \<open>LoadProgram\<close>
  do, and among the calls on a machine only these two can.
\<close>

theorem Step_never_sets_runnable:
  "(state (fst (Step inp h)) = CPUok \<longrightarrow> state h = CPUok) \<and>
   (state h \<noteq> CPUok \<longrightarrow> state (Steps inps h) \<noteq> CPUok) \<and>
   state (ResetCPU h) = CPUok \<and>
   (fst (LoadProgram ls e h) = None \<longrightarrow> state (snd (LoadProgram ls e h)) = CPUok) \<and>
   (state h \<noteq> CPUok \<and> state (apply_call c h) = CPUok \<longrightarrow>
      c = CallResetCPU \<or> (\<exists>ls'. c = CallLoadProgram ls' False \<and> list_all lineOk ls'))"
  using Step_state [of inp h] Steps_state [of h inps] LoadProgram_success_state [of ls e h]
    apply_call_restores [of h c]
  by (auto simp: ResetCPU_def)

text \<open>
  A machine stopped by a division by zero stays stopped through three more steps, and
  is runnable again after a reset.
\<close>

theorem Step_never_sets_runnable_witness:
  "state (NewMachine\<lparr>state := CPUdivzero\<rparr>) \<noteq> CPUok \<and>
   state (Steps [0, 5, 0] (NewMachine\<lparr>state := CPUdivzero\<rparr>)) \<noteq> CPUok \<and>
   state (ResetCPU (Steps [0, 5, 0] (NewMachine\<lparr>state := CPUdivzero\<rparr>))) = CPUok"
proof -
  have ne: "state (NewMachine\<lparr>state := CPUdivzero\<rparr>) \<noteq> CPUok" by simp
  from Step_never_sets_runnable [where h = "NewMachine\<lparr>state := CPUdivzero\<rparr>" and inps = "[0, 5, 0]"]
    Step_never_sets_runnable [where h = "Steps [0, 5, 0] (NewMachine\<lparr>state := CPUdivzero\<rparr>)"]
    ne
  show ?thesis by blast
qed

end
